theory Spec2Isabelle
  imports Complex_Main "HOL-Library.Signed_Division"
begin

section \<open>Package sizeflag: human-readable integer sizes\<close>

text \<open>
  A shallow embedding of \<^verbatim>\<open>sizeflag/flag.go\<close>: the parser \<^verbatim>\<open>parse\<close>, the
  formatter \<^verbatim>\<open>unparse\<close> and the flag cells \<^verbatim>\<open>Value2\<close> and \<^verbatim>\<open>Value10\<close>.
  Go strings are byte strings, so a string is a \<open>char list\<close> of bytes. Go's
  \<^verbatim>\<open>int\<close> is the 64-bit two's-complement integer (the constant \<^verbatim>\<open>ei\<close> does not
  fit a 32-bit \<^verbatim>\<open>int\<close>, so the package only compiles where \<^verbatim>\<open>int\<close> has 64 bits): it
  is modelled as \<open>int\<close> with the wrap-around written out by \<open>wrap64\<close>.
\<close>

subsection \<open>Machine integers\<close>

definition wrap64 :: "int \<Rightarrow> int" where
  "wrap64 x = (x + 2 ^ 63) mod 2 ^ 64 - 2 ^ 63"

definition minInt64 :: int where
  "minInt64 = - (2 ^ 63)"

subsection \<open>Bytes and the library functions on strings\<close>

definition isDigit :: "char \<Rightarrow> bool" where
  "isDigit c = (48 \<le> (of_char c :: int) \<and> (of_char c :: int) \<le> 57)"

definition digitVal :: "char \<Rightarrow> int" where
  "digitVal c = (of_char c :: int) - 48"

text \<open>The value of a string of decimal digits, most significant digit first.\<close>

definition digitsVal :: "string \<Rightarrow> int" where
  "digitsVal ds = foldl (\<lambda>acc c. acc * 10 + digitVal c) 0 ds"

text \<open>
  \<^verbatim>\<open>strings.TrimSpace\<close> removes the leading and the trailing white space, as defined by
  Unicode (\<^verbatim>\<open>unicode.IsSpace\<close>). On the bytes of the string a white-space rune is one
  of the following UTF-8 encodings: the six ASCII spaces, U+0085, U+00A0, U+1680,
  U+2000 to U+200A, U+2028, U+2029, U+202F, U+205F and U+3000. Bytes that are not valid
  UTF-8 decode to the replacement rune, which is no space.
\<close>

definition spaceRunes :: "string list" where
  "spaceRunes =
    [[CHR 0x09], [CHR 0x0A], [CHR 0x0B], [CHR 0x0C], [CHR 0x0D], [CHR 0x20],
     [CHR 0xC2, CHR 0x85], [CHR 0xC2, CHR 0xA0],
     [CHR 0xE1, CHR 0x9A, CHR 0x80],
     [CHR 0xE2, CHR 0x80, CHR 0x80], [CHR 0xE2, CHR 0x80, CHR 0x81],
     [CHR 0xE2, CHR 0x80, CHR 0x82], [CHR 0xE2, CHR 0x80, CHR 0x83],
     [CHR 0xE2, CHR 0x80, CHR 0x84], [CHR 0xE2, CHR 0x80, CHR 0x85],
     [CHR 0xE2, CHR 0x80, CHR 0x86], [CHR 0xE2, CHR 0x80, CHR 0x87],
     [CHR 0xE2, CHR 0x80, CHR 0x88], [CHR 0xE2, CHR 0x80, CHR 0x89],
     [CHR 0xE2, CHR 0x80, CHR 0x8A],
     [CHR 0xE2, CHR 0x80, CHR 0xA8], [CHR 0xE2, CHR 0x80, CHR 0xA9],
     [CHR 0xE2, CHR 0x80, CHR 0xAF],
     [CHR 0xE2, CHR 0x81, CHR 0x9F],
     [CHR 0xE3, CHR 0x80, CHR 0x80]]"

text \<open>The number of bytes of the white-space rune that \<open>s\<close> starts with, or 0.\<close>

definition leadingSpace :: "string \<Rightarrow> nat" where
  "leadingSpace s =
    (case find (\<lambda>e. take (length e) s = e) spaceRunes of
       None \<Rightarrow> 0 | Some e \<Rightarrow> length e)"

text \<open>The number of bytes of the white-space rune that \<open>s\<close> ends with, or 0.\<close>

definition trailingSpace :: "string \<Rightarrow> nat" where
  "trailingSpace s =
    (case find (\<lambda>e. drop (length s - length e) s = e) spaceRunes of
       None \<Rightarrow> 0 | Some e \<Rightarrow> length e)"

lemma leadingSpace_le: "leadingSpace s \<le> length s"
  unfolding leadingSpace_def
  by (auto split: option.splits simp: find_Some_iff) (metis length_take min.cobounded1)

lemma trailingSpace_le: "trailingSpace s \<le> length s"
  unfolding trailingSpace_def
  by (auto split: option.splits simp: find_Some_iff) (metis length_drop diff_le_self)

function trimLeft :: "string \<Rightarrow> string" where
  "trimLeft s = (if leadingSpace s = 0 then s else trimLeft (drop (leadingSpace s) s))"
  by pat_completeness auto

function trimRight :: "string \<Rightarrow> string" where
  "trimRight s =
    (if trailingSpace s = 0 then s else trimRight (take (length s - trailingSpace s) s))"
  by pat_completeness auto

termination trimLeft
proof (relation "measure length")
  fix s :: string
  assume "leadingSpace s \<noteq> 0"
  with leadingSpace_le [of s] show "(drop (leadingSpace s) s, s) \<in> measure length"
    by simp
qed simp

termination trimRight
proof (relation "measure length")
  fix s :: string
  assume "trailingSpace s \<noteq> 0"
  with trailingSpace_le [of s]
  show "(take (length s - trailingSpace s) s, s) \<in> measure length"
    by simp
qed simp

declare trimLeft.simps [simp del] trimRight.simps [simp del]

definition TrimSpace :: "string \<Rightarrow> string" where
  "TrimSpace s = trimRight (trimLeft s)"

text \<open>
  \<^verbatim>\<open>sizeRE\<close> is the regular expression
  \<^verbatim>\<open>^(?i)([0-9]+(?:\.[0-9]+)?)([bkmgtp])\<close>. The unit class is matched without
  regard to case; under Go's simple case folding the letter k also folds to the Kelvin
  sign U+212A (bytes E2 84 AA), so the class accepts the twelve ASCII letters and that
  sign. Both digit runs are greedy, and no shorter run can be followed by a dot or a
  unit, so the match is determined by the longest runs. The result holds the submatches
  \<^verbatim>\<open>m[0]\<close>, \<^verbatim>\<open>m[1]\<close> and \<^verbatim>\<open>m[2]\<close>.
\<close>

definition kelvin :: string where
  "kelvin = [CHR 0xE2, CHR 0x84, CHR 0xAA]"

definition matchUnit :: "string \<Rightarrow> string option" where
  "matchUnit s =
    (case s of
       [] \<Rightarrow> None
     | c # _ \<Rightarrow>
         if c \<in> set ''bkmgtpBKMGTP'' then Some [c]
         else if take 3 s = kelvin then Some kelvin
         else None)"

definition matchFraction :: "string \<Rightarrow> (string \<times> string) option" where
  "matchFraction s =
    (case s of
       [] \<Rightarrow> None
     | c # r \<Rightarrow>
         if c = CHR ''.'' \<and> takeWhile isDigit r \<noteq> []
         then (case matchUnit (dropWhile isDigit r) of
                 None \<Rightarrow> None
               | Some unit \<Rightarrow> Some (c # takeWhile isDigit r, unit))
         else None)"

definition sizeRE :: "string \<Rightarrow> (string \<times> string \<times> string) option" where
  "sizeRE s =
    (let d = takeWhile isDigit s; r = dropWhile isDigit s in
     if d = [] then None
     else (case matchFraction r of
             Some (fr, unit) \<Rightarrow> Some (d @ fr @ unit, d @ fr, unit)
           | None \<Rightarrow>
               (case matchUnit r of
                  Some unit \<Rightarrow> Some (d @ unit, d, unit)
                | None \<Rightarrow> None)))"

text \<open>
  \<^verbatim>\<open>strings.ToLower\<close>, on the strings that the unit group of \<^verbatim>\<open>sizeRE\<close> can
  capture: ASCII capitals are lowered bytewise, and the Kelvin sign maps to k.
\<close>

definition lowerByte :: "char \<Rightarrow> char" where
  "lowerByte c =
    (if 65 \<le> (of_char c :: int) \<and> (of_char c :: int) \<le> 90
     then char_of ((of_char c :: int) + 32) else c)"

definition ToLower :: "string \<Rightarrow> string" where
  "ToLower s = (if s = kelvin then ''k'' else map lowerByte s)"

text \<open>
  \<^verbatim>\<open>strconv.Atoi\<close>: an optional sign, then one or more decimal digits, and the value
  must fit the 64-bit \<^verbatim>\<open>int\<close>; anything else is an error (\<open>None\<close>).
\<close>

definition Atoi :: "string \<Rightarrow> int option" where
  "Atoi s =
    (let neg = (take 1 s = ''-'');
         ds = (if take 1 s = ''-'' \<or> take 1 s = ''+'' then drop 1 s else s);
         v = (if neg then - digitsVal ds else digitsVal ds)
     in if ds \<noteq> [] \<and> list_all isDigit ds
        then (if minInt64 \<le> v \<and> v < - minInt64 then Some v else None)
        else None)"

subsection \<open>The type float64\<close>

text \<open>
  The parser only meets doubles that are zero, positive and finite, or plus infinity.
  \<open>Finite m e\<close> stands for the double of value \<open>m * 2 ^ e\<close>, with \<open>0 \<le> m\<close>.
  \<open>round64 p q\<close> is the IEEE 754 rounding of the rational \<open>p / q\<close> (with \<open>0 \<le> p\<close> and
  \<open>0 < q\<close>) to binary64, to nearest with ties to even: 53 significant bits, the least
  exponent \<open>-1074\<close> for subnormal numbers, and overflow to infinity from \<open>2 ^ 1024\<close> on.
\<close>

datatype float64 = Finite int int | PosInf

text \<open>The number of binary digits of a positive integer.\<close>

function bitLength :: "int \<Rightarrow> int" where
  "bitLength n = (if n \<le> 0 then 0 else 1 + bitLength (n div 2))"
  by pat_completeness auto

termination bitLength
  by (relation "measure nat") auto

declare bitLength.simps [simp del]

definition round64 :: "int \<Rightarrow> int \<Rightarrow> float64" where
  "round64 p q =
    (if p \<le> 0 then Finite 0 0
     else let k = bitLength p - bitLength q;
              lg = (if q * 2 ^ nat k \<le> p * 2 ^ nat (- k) then k else k - 1);
              e = max (lg - 52) (- 1074);
              num = p * 2 ^ nat (- e);
              den = q * 2 ^ nat e;
              f = num div den;
              r = num mod den;
              m = (if 2 * r < den then f
                   else if den < 2 * r then f + 1
                   else if even f then f else f + 1)
          in if 1024 < bitLength m + e then PosInf else Finite m e)"

text \<open>
  \<^verbatim>\<open>strconv.ParseFloat(s, 64)\<close> on a string of the form \<^verbatim>\<open>digits\<close> or
  \<^verbatim>\<open>digits.digits\<close>, the only strings the first group of \<^verbatim>\<open>sizeRE\<close> captures: the
  nearest double to the decimal value, and a range error (\<open>None\<close>) when that is infinite.
\<close>

definition ParseFloat :: "string \<Rightarrow> float64 option" where
  "ParseFloat s =
    (let ip = takeWhile isDigit s; fp = drop 1 (dropWhile isDigit s) in
     case round64 (digitsVal (ip @ fp)) (10 ^ length fp) of
       Finite m e \<Rightarrow> Some (Finite m e)
     | PosInf \<Rightarrow> None)"

text \<open>
  The product of two doubles. In \<^verbatim>\<open>parse\<close> the first factor is finite and the second is
  a unit multiplier, finite and positive, so no product is undefined.
\<close>

fun fmul :: "float64 \<Rightarrow> float64 \<Rightarrow> float64" where
  "fmul (Finite m1 e1) (Finite m2 e2) =
     round64 (m1 * m2 * 2 ^ nat (e1 + e2)) (2 ^ nat (- (e1 + e2)))"
| "fmul _ _ = PosInf"

text \<open>
  The conversion \<^verbatim>\<open>int(v)\<close> discards the fraction. Where the value does not fit the
  \<^verbatim>\<open>int\<close>, Go leaves the result to the implementation and does not panic; the model
  takes the amd64 result, the least \<^verbatim>\<open>int\<close>.
\<close>

fun floatToInt :: "float64 \<Rightarrow> int" where
  "floatToInt (Finite m e) =
     (let x = (m * 2 ^ nat e) div 2 ^ nat (- e) in if x < 2 ^ 63 then x else minInt64)"
| "floatToInt PosInf = minInt64"

subsection \<open>The unit tables\<close>

definition kd :: int where "kd = 1000"
definition md :: int where "md = kd * kd"
definition gd :: int where "gd = md * kd"
definition td :: int where "td = gd * kd"
definition pd :: int where "pd = td * kd"
definition ed :: int where "ed = pd * kd"

definition ki :: int where "ki = 1024"
definition mi :: int where "mi = ki * ki"
definition gi :: int where "gi = mi * ki"
definition ti :: int where "ti = gi * ki"
definition pi_i :: int where "pi_i = ti * ki"
definition ei :: int where "ei = pi_i * ki"

text \<open>
  The maps hold the constants as doubles; each of them is a double exactly (an integer
  below \<open>2 ^ 53\<close>, or such an integer times a power of two).
\<close>

definition units2 :: "string \<rightharpoonup> float64" where
  "units2 = map_of
    [(''k'', Finite ki 0), (''m'', Finite mi 0), (''g'', Finite gi 0),
     (''t'', Finite ti 0), (''p'', Finite pi_i 0), (''e'', Finite ei 0)]"

definition units10 :: "string \<rightharpoonup> float64" where
  "units10 = map_of
    [(''k'', Finite kd 0), (''m'', Finite md 0), (''g'', Finite gd 0),
     (''t'', Finite td 0), (''p'', Finite pd 0), (''e'', Finite ed 0)]"

definition mult2 :: "int list" where
  "mult2 = [ei, pi_i, ti, gi, mi, ki]"

definition mult10 :: "int list" where
  "mult10 = [ed, pd, td, gd, md, kd]"

definition labels :: "string list" where
  "labels = ['''', ''E'', ''P'', ''T'', ''G'', ''M'', ''K'']"

subsection \<open>The parser\<close>

datatype error = InvalidSize string | InvalidUnit string

text \<open>
  The code after the loop of \<^verbatim>\<open>parse\<close>: the rest of the string is an integer, or is
  empty after at least one term.
\<close>

definition parseRest :: "string \<Rightarrow> int \<Rightarrow> bool \<Rightarrow> int \<times> error option" where
  "parseRest s0 sz ok =
    (let s = TrimSpace s0 in
     if s \<noteq> []
     then (case Atoi s of
             None \<Rightarrow> (0, Some (InvalidSize s))
           | Some v \<Rightarrow> (wrap64 (sz + v), None))
     else if ok then (sz, None)
     else (0, Some (InvalidSize s)))"

lemma trimLeft_le: "length (trimLeft s) \<le> length s"
proof (induction s rule: trimLeft.induct)
  case (1 s)
  show ?case
  proof (cases "leadingSpace s = 0")
    case True
    then show ?thesis by (subst trimLeft.simps) simp
  next
    case False
    from 1 [OF False]
    have "length (trimLeft (drop (leadingSpace s) s)) \<le> length (drop (leadingSpace s) s)" .
    also have "\<dots> \<le> length s" by simp
    finally show ?thesis using False by (subst trimLeft.simps) simp
  qed
qed

lemma trimRight_le: "length (trimRight s) \<le> length s"
proof (induction s rule: trimRight.induct)
  case (1 s)
  show ?case
  proof (cases "trailingSpace s = 0")
    case True
    then show ?thesis by (subst trimRight.simps) simp
  next
    case False
    from 1 [OF False]
    have "length (trimRight (take (length s - trailingSpace s) s))
          \<le> length (take (length s - trailingSpace s) s)" .
    also have "\<dots> \<le> length s" by simp
    finally show ?thesis using False by (subst trimRight.simps) simp
  qed
qed

lemma TrimSpace_le: "length (TrimSpace s) \<le> length s"
  unfolding TrimSpace_def using trimRight_le [of "trimLeft s"] trimLeft_le [of s] by simp

lemma sizeRE_consumes:
  assumes "sizeRE s = Some (m0, m1, m2)"
  shows "length (drop (length m0) s) < length s"
proof -
  from assms have "takeWhile isDigit s \<noteq> []" "m0 \<noteq> []"
    by (auto simp: sizeRE_def Let_def split: if_splits option.splits)
  then have "s \<noteq> []" by auto
  with \<open>m0 \<noteq> []\<close> show ?thesis by simp
qed

text \<open>
  One round of the loop of \<^verbatim>\<open>parse\<close>, from the string and the total so far: the
  loop breaks with the trimmed string, the function returns, or the loop goes on with the
  rest of the string and the new total.
\<close>

datatype step = Break string | Return "int \<times> error option" | Continue string int

definition parseTerm :: "string \<Rightarrow> (string \<rightharpoonup> float64) \<Rightarrow> int \<Rightarrow> step" where
  "parseTerm s0 unit sz =
    (let s = TrimSpace s0 in
     case sizeRE s of
       None \<Rightarrow> Break s
     | Some (m0, m1, m2) \<Rightarrow>
         (case ParseFloat m1 of
            None \<Rightarrow> Return (0, Some (InvalidSize m0))
          | Some v \<Rightarrow>
              (case unit (ToLower m2) of
                 Some mul \<Rightarrow>
                   Continue (drop (length m0) s) (wrap64 (sz + floatToInt (fmul v mul)))
               | None \<Rightarrow> Return (sz, Some (InvalidUnit m2)))))"

lemma parseTerm_consumes:
  assumes "parseTerm s0 unit sz = Continue s' sz'"
  shows "length s' < length s0"
proof -
  from assms obtain m0 m1 m2 where m: "sizeRE (TrimSpace s0) = Some (m0, m1, m2)"
    and s': "s' = drop (length m0) (TrimSpace s0)"
    by (auto simp: parseTerm_def Let_def split: option.splits)
  from sizeRE_consumes [OF m] TrimSpace_le [of s0] s' show ?thesis by simp
qed

text \<open>
  The loop of \<^verbatim>\<open>parse\<close>, with the local variables \<^verbatim>\<open>s\<close>, \<^verbatim>\<open>size\<close> and \<^verbatim>\<open>ok\<close> as
  arguments. Every round consumes the matched term, so the loop ends.
\<close>

function parseLoop ::
  "string \<Rightarrow> (string \<rightharpoonup> float64) \<Rightarrow> int \<Rightarrow> bool \<Rightarrow> int \<times> error option" where
  "parseLoop s0 unit sz ok =
    (case parseTerm s0 unit sz of
       Break s \<Rightarrow> parseRest s sz ok
     | Return r \<Rightarrow> r
     | Continue s' sz' \<Rightarrow> parseLoop s' unit sz' True)"
  by pat_completeness auto

termination parseLoop
  by (relation "measure (\<lambda>(s, unit, sz, ok). length s)") (auto dest: parseTerm_consumes)

declare parseLoop.simps [simp del]

definition parse :: "string \<Rightarrow> (string \<rightharpoonup> float64) \<Rightarrow> int \<times> error option" where
  "parse s unit = parseLoop s unit 0 False"

subsection \<open>The formatter\<close>

text \<open>
  The struct \<^verbatim>\<open>term\<close> of \<^verbatim>\<open>unparse\<close>, with its fields \<^verbatim>\<open>n\<close> and \<^verbatim>\<open>u\<close>.
\<close>

record term_t =
  term_n :: int
  term_u :: string

text \<open>
  The closure \<^verbatim>\<open>add\<close> updates the captured slice \<^verbatim>\<open>terms\<close> and returns \<^verbatim>\<open>v\<close>; the
  model takes the slice and the captured \<^verbatim>\<open>pow\<close> as arguments and returns the new
  slice with \<^verbatim>\<open>v\<close>.
\<close>

definition add ::
  "int \<Rightarrow> term_t list \<Rightarrow> int \<Rightarrow> string \<Rightarrow> string \<Rightarrow> int \<Rightarrow> term_t list \<times> int" where
  "add pow terms n u prev v =
    (if terms \<noteq> [] \<and> v = 0 \<and> term_u (last terms) = prev
     then (butlast terms @ [\<lparr>term_n = wrap64 (term_n (last terms) * pow + n), term_u = u\<rparr>], v)
     else (terms @ [\<lparr>term_n = n, term_u = u\<rparr>], v))"

text \<open>
  The loop over \<^verbatim>\<open>mult\<close>, from index \<open>i\<close> on, with the slice and \<^verbatim>\<open>z\<close> as state. Go's
  \<^verbatim>\<open>/\<close> and \<^verbatim>\<open>%\<close> truncate toward zero. A division by zero and an index beyond
  \<^verbatim>\<open>labels\<close> are run-time panics, the result \<open>None\<close>.
\<close>

fun unparseLoop ::
  "int \<Rightarrow> nat \<Rightarrow> int list \<Rightarrow> term_t list \<Rightarrow> int \<Rightarrow> (term_t list \<times> int) option" where
  "unparseLoop pow i [] terms z = Some (terms, z)"
| "unparseLoop pow i (d # ds) terms z =
    (if d = 0 then None
     else if 0 < wrap64 (z sdiv d)
     then (if i + 1 < length labels
           then (case add pow terms (wrap64 (z sdiv d)) (labels ! (i + 1)) (labels ! i) (z smod d) of
                   (terms', z') \<Rightarrow> unparseLoop pow (i + 1) ds terms' z')
           else None)
     else unparseLoop pow (i + 1) ds terms z)"

text \<open>The slice \<^verbatim>\<open>terms\<close> when both loops and the last \<^verbatim>\<open>add\<close> are done.\<close>

definition unparseTerms :: "int \<Rightarrow> int \<Rightarrow> int list \<Rightarrow> term_t list option" where
  "unparseTerms v pow mult =
    (case unparseLoop pow 0 mult [] v of
       None \<Rightarrow> None
     | Some (terms, z) \<Rightarrow>
         Some (if terms = [] \<or> 0 < z then fst (add pow terms z '''' ''K'' 0) else terms))"

text \<open>The verb \<^verbatim>\<open>%d\<close>: the decimal digits of an integer, after a minus sign if negative.\<close>

function digitsOf :: "int \<Rightarrow> string" where
  "digitsOf n =
    (if n < 10 then [char_of (48 + n)] else digitsOf (n div 10) @ [char_of (48 + n mod 10)])"
  by pat_completeness auto

termination digitsOf
  by (relation "measure nat") auto

declare digitsOf.simps [simp del]

definition fmtInt :: "int \<Rightarrow> string" where
  "fmtInt n = (if n < 0 then ''-'' @ digitsOf (- n) else digitsOf n)"

text \<open>\<^verbatim>\<open>fmt.Sprintf("%d%s", t.n, t.u)\<close>\<close>

definition fmtTerm :: "term_t \<Rightarrow> string" where
  "fmtTerm t = fmtInt (term_n t) @ term_u t"

text \<open>\<^verbatim>\<open>strings.Join\<close>\<close>

fun Join :: "string list \<Rightarrow> string \<Rightarrow> string" where
  "Join [] sep = []"
| "Join [x] sep = x"
| "Join (x # y # ys) sep = x @ sep @ Join (y # ys) sep"

definition unparse :: "int \<Rightarrow> int \<Rightarrow> int list \<Rightarrow> string option" where
  "unparse v pow mult =
    (case unparseTerms v pow mult of
       None \<Rightarrow> None
     | Some terms \<Rightarrow> Some (Join (map fmtTerm terms) '' ''))"

subsection \<open>The flag values\<close>

text \<open>
  \<^verbatim>\<open>Value2\<close> and \<^verbatim>\<open>Value10\<close> are integer cells. \<^verbatim>\<open>Set\<close> takes the content of the
  cell and returns the new content with the error. \<^verbatim>\<open>String\<close> renders the content.
\<close>

definition String2 :: "int \<Rightarrow> string option" where
  "String2 v = unparse v 1024 mult2"

definition String10 :: "int \<Rightarrow> string option" where
  "String10 v = unparse v 1000 mult10"

definition Set2 :: "string \<Rightarrow> int \<Rightarrow> int \<times> error option" where
  "Set2 s v =
    (case parse s units2 of
       (z, None) \<Rightarrow> (z, None)
     | (z, Some err) \<Rightarrow> (v, Some err))"

definition Set10 :: "string \<Rightarrow> int \<Rightarrow> int \<times> error option" where
  "Set10 s v =
    (case parse s units10 of
       (z, None) \<Rightarrow> (z, None)
     | (z, Some err) \<Rightarrow> (v, Some err))"

subsection \<open>Notions for the statements about the parser\<close>

text \<open>
  The rational value of a finite double, and the doubles whose value is below \<open>2 ^ 63\<close>,
  the ones that the conversion to \<^verbatim>\<open>int\<close> can hold.
\<close>

definition valueOf :: "float64 \<Rightarrow> rat" where
  "valueOf x = (case x of Finite m e \<Rightarrow> of_int m * 2 ^ nat e / 2 ^ nat (- e) | PosInf \<Rightarrow> 0)"

fun fitsInt :: "float64 \<Rightarrow> bool" where
  "fitsInt (Finite m e) = (m * 2 ^ nat e < 2 ^ 63 * 2 ^ nat (- e))"
| "fitsInt PosInf = False"

subsection \<open>Notions for the statements about the formatter\<close>

text \<open>
  The rank of a unit label, the quantity that a slice of terms stands for, and the order
  of the labels from the greatest unit down. \<open>loopInv\<close> is the invariant of the loop of
  \<^verbatim>\<open>unparse\<close> when the units above rank \<open>k\<close> are done.
\<close>

definition unitRank :: "string \<Rightarrow> nat" where
  "unitRank u =
    (if u = ''K'' then 1 else if u = ''M'' then 2 else if u = ''G'' then 3
     else if u = ''T'' then 4 else if u = ''P'' then 5 else if u = ''E'' then 6 else 0)"

definition termsVal :: "int \<Rightarrow> term_t list \<Rightarrow> int" where
  "termsVal pow ts = sum_list (map (\<lambda>t. term_n t * pow ^ unitRank (term_u t)) ts)"

definition descending :: "term_t list \<Rightarrow> bool" where
  "descending ts = sorted_wrt (\<lambda>a b. unitRank (term_u b) < unitRank (term_u a)) ts"

definition loopInv :: "int \<Rightarrow> int \<Rightarrow> nat \<Rightarrow> term_t list \<Rightarrow> int \<Rightarrow> bool" where
  "loopInv pow v k ts z =
    (0 \<le> z \<and> termsVal pow ts + z = v \<and> descending ts
     \<and> list_all (\<lambda>t. 0 < term_n t \<and> k < unitRank (term_u t) \<and> term_u t \<in> set (tl labels)) ts)"


section \<open>Properties of the parser and the formatter\<close>

text \<open>
  Claim C1 (round trip): for every unit base and every non-negative quantity \<open>q\<close>,
  parsing the rendering of \<open>q\<close> gives back \<open>q\<close>. The code breaks this at the unit E: the
  formatter renders \<open>2 ^ 60\<close> as \<open>1E\<close> (and \<open>10 ^ 18\<close> as \<open>1E\<close> in the decimal base), which
  the parser rejects, since the unit class of \<^verbatim>\<open>sizeRE\<close> has no letter e.
\<close>

theorem round_trip_fails_at_exa:
  "unparse (2 ^ 60) 1024 mult2 = Some ''1E''
   \<and> parse ''1E'' units2 = (0, Some (InvalidSize ''1E''))
   \<and> unparse (10 ^ 18) 1000 mult10 = Some ''1E''
   \<and> parse ''1E'' units10 = (0, Some (InvalidSize ''1E''))"
  by code_simp

text \<open>
  Claim C2 (unit e): a term with the unit letter e or E is accepted and scaled by the
  multiplier of rank 6. Both tables hold the key e, but \<^verbatim>\<open>sizeRE\<close> does not match the
  letter, so the term is taken for a malformed integer and the parse fails.
\<close>

theorem parse_rejects_unit_e:
  "units2 ''e'' = Some (Finite (1024 ^ 6) 0)
   \<and> units10 ''e'' = Some (Finite (1000 ^ 6) 0)
   \<and> sizeRE ''1e'' = None
   \<and> parse ''1e'' units2 = (0, Some (InvalidSize ''1e''))
   \<and> parse ''1E'' units2 = (0, Some (InvalidSize ''1E''))
   \<and> parse ''1e'' units10 = (0, Some (InvalidSize ''1e''))"
  by code_simp

text \<open>
  Claim C3 (no negative result): a successful parse gives a non-negative quantity, and the
  trailing integer never carries a minus sign. \<^verbatim>\<open>strconv.Atoi\<close> accepts a sign, so the
  code returns \<open>-5\<close> for \<open>-5\<close> and \<open>2045\<close> for \<open>2k-3\<close>, both without an error.
\<close>

theorem parse_accepts_negative_residual:
  "parse ''-5'' units2 = (- 5, None)
   \<and> parse ''-5'' units10 = (- 5, None)
   \<and> parse ''2k-3'' units2 = (2045, None)"
  by code_simp

lemma fitsInt_value: "fitsInt (Finite m e) \<longleftrightarrow> valueOf (Finite m e) < 2 ^ 63"
proof -
  have "valueOf (Finite m e) < 2 ^ 63
        \<longleftrightarrow> (of_int (m * 2 ^ nat e) :: rat) < of_int (2 ^ 63 * 2 ^ nat (- e))"
    by (simp add: valueOf_def pos_divide_less_eq)
  also have "\<dots> \<longleftrightarrow> m * 2 ^ nat e < 2 ^ 63 * 2 ^ nat (- e)"
    by (simp only: of_int_less_iff)
  finally show ?thesis by simp
qed

lemma floatToInt_floor:
  assumes "fitsInt (Finite m e)"
  shows "floatToInt (Finite m e) = \<lfloor>valueOf (Finite m e)\<rfloor>"
proof -
  have fl: "\<lfloor>valueOf (Finite m e)\<rfloor> = (m * 2 ^ nat e) div 2 ^ nat (- e)"
    using floor_divide_of_int_eq [of "m * 2 ^ nat e" "2 ^ nat (- e)", where ?'a = rat]
    by (simp add: valueOf_def)
  from assms have "valueOf (Finite m e) < 2 ^ 63" by (simp only: fitsInt_value)
  then have "\<lfloor>valueOf (Finite m e)\<rfloor> < 2 ^ 63"
    using floor_less_iff [of "valueOf (Finite m e)" "2 ^ 63"] by simp
  with fl show ?thesis by (simp add: Let_def)
qed

lemma round64_nonneg:
  assumes "0 < q" and "round64 p q = Finite m e"
  shows "0 \<le> m"
proof (cases "p \<le> 0")
  case True
  with assms show ?thesis by (simp add: round64_def)
next
  case False
  define k where "k = bitLength p - bitLength q"
  define lg where "lg = (if q * 2 ^ nat k \<le> p * 2 ^ nat (- k) then k else k - 1)"
  define ex where "ex = max (lg - 52) (- 1074)"
  define num where "num = p * 2 ^ nat (- ex)"
  define den where "den = q * 2 ^ nat ex"
  define f where "f = num div den"
  define r where "r = num mod den"
  define M where "M = (if 2 * r < den then f
                   else if den < 2 * r then f + 1
                   else if even f then f else f + 1)"
  have eq: "round64 p q = (if 1024 < bitLength M + ex then PosInf else Finite M ex)"
    unfolding round64_def Let_def M_def r_def f_def den_def num_def ex_def lg_def k_def
    using False by (simp only: if_False)
  from False have "0 \<le> num" by (simp add: num_def)
  moreover from assms(1) have "0 < den" by (simp add: den_def)
  ultimately have f: "0 \<le> f" unfolding f_def by (simp add: pos_imp_zdiv_nonneg_iff)
  have "M = f \<or> M = f + 1" by (simp add: M_def)
  with f have "0 \<le> M" by auto
  moreover from assms(2) eq have "m = M" by (simp split: if_splits)
  ultimately show ?thesis by simp
qed

lemma fmul_nonneg:
  assumes "fmul v mul = Finite m e"
  shows "0 \<le> m"
proof -
  from assms obtain m1 e1 m2 e2 where "v = Finite m1 e1" "mul = Finite m2 e2"
    by (cases v; cases mul) auto
  with assms have "round64 (m1 * m2 * 2 ^ nat (e1 + e2)) (2 ^ nat (- (e1 + e2))) = Finite m e"
    by simp
  then show ?thesis by (rule round64_nonneg [rotated]) simp
qed

lemma valueOf_nonneg: "0 \<le> m \<Longrightarrow> 0 \<le> valueOf (Finite m e)"
  by (simp add: valueOf_def)

lemma parseLoop_Continue:
  "parseTerm s unit sz = Continue s' sz' \<Longrightarrow> parseLoop s unit sz ok = parseLoop s' unit sz' True"
  by (subst parseLoop.simps) simp

text \<open>
  Claim C4 (rounding per term): each matched term is rounded toward negative infinity on
  its own, before the sum. For both unit tables, a round of the loop that matches a term
  adds to the total the integer \<open>floatToInt (fmul v mul)\<close>, where \<open>v\<close> is the double of
  the term's number and \<open>mul\<close> the multiplier of its unit: that integer is the floor of
  the value of the product (which is not negative) whenever the product is below
  \<open>2 ^ 63\<close>; it is the same whatever the total so far is; and the loop goes on from the new
  total. In the binary base \<open>1.7M0.3K\<close> gives \<open>1782579 + 307 = 1782886\<close> and \<open>0.25p\<close> gives
  \<open>281474976710656\<close>, a quarter of \<open>2 ^ 50\<close>; \<open>1.9k\<close> gives 1945 (the product is
  1945.6) and \<open>0.7k0.7k\<close> gives \<open>716 + 716 = 1432\<close> (the exact sum is 1433.6).
\<close>

theorem parse_rounds_each_term:
  assumes "unit = units2 \<or> unit = units10"
    and "parseTerm s unit sz = Continue s' sz'"
  shows "(\<exists>m0 m1 m2 v mul.
           sizeRE (TrimSpace s) = Some (m0, m1, m2)
           \<and> ParseFloat m1 = Some v
           \<and> unit (ToLower m2) = Some mul
           \<and> s' = drop (length m0) (TrimSpace s)
           \<and> sz' = wrap64 (sz + floatToInt (fmul v mul))
           \<and> (fitsInt (fmul v mul) \<longrightarrow>
                0 \<le> valueOf (fmul v mul) \<and> valueOf (fmul v mul) < 2 ^ 63
                \<and> floatToInt (fmul v mul) = \<lfloor>valueOf (fmul v mul)\<rfloor>)
           \<and> (\<forall>sz0. parseTerm s unit sz0 = Continue s' (wrap64 (sz0 + floatToInt (fmul v mul))))
           \<and> (\<forall>ok. parseLoop s unit sz ok = parseLoop s' unit sz' True))
         \<and> parse ''1.7M0.3K'' units2 = (1782886, None)
         \<and> parse ''1.7M'' units2 = (1782579, None)
         \<and> parse ''0.3K'' units2 = (307, None)
         \<and> parse ''0.25p'' units2 = (281474976710656, None)
         \<and> 281474976710656 * 4 = pi_i
         \<and> parse ''1.9k'' units2 = (1945, None)
         \<and> parse ''0.7k'' units2 = (716, None)
         \<and> parse ''0.7k0.7k'' units2 = (1432, None)"
proof -
  from assms(2) obtain m0 m1 m2 v mul where
    m: "sizeRE (TrimSpace s) = Some (m0, m1, m2)" and v: "ParseFloat m1 = Some v"
    and mul: "unit (ToLower m2) = Some mul"
    and s': "s' = drop (length m0) (TrimSpace s)"
    and sz': "sz' = wrap64 (sz + floatToInt (fmul v mul))"
    by (auto simp: parseTerm_def Let_def split: option.splits)
  have fl: "fitsInt (fmul v mul) \<longrightarrow>
      0 \<le> valueOf (fmul v mul) \<and> valueOf (fmul v mul) < 2 ^ 63
      \<and> floatToInt (fmul v mul) = \<lfloor>valueOf (fmul v mul)\<rfloor>"
  proof
    assume fits: "fitsInt (fmul v mul)"
    then obtain m e where p: "fmul v mul = Finite m e" by (cases "fmul v mul") auto
    from fmul_nonneg [OF p] have "0 \<le> valueOf (Finite m e)" by (rule valueOf_nonneg)
    moreover from fits p have "valueOf (Finite m e) < 2 ^ 63" by (simp only: fitsInt_value)
    moreover from fits p have "floatToInt (Finite m e) = \<lfloor>valueOf (Finite m e)\<rfloor>"
      using floatToInt_floor by simp
    ultimately show "0 \<le> valueOf (fmul v mul) \<and> valueOf (fmul v mul) < 2 ^ 63
      \<and> floatToInt (fmul v mul) = \<lfloor>valueOf (fmul v mul)\<rfloor>"
      using p by simp
  qed
  have other: "\<forall>sz0. parseTerm s unit sz0 = Continue s' (wrap64 (sz0 + floatToInt (fmul v mul)))"
    using m v mul s' by (simp add: parseTerm_def)
  have loop: "\<forall>ok. parseLoop s unit sz ok = parseLoop s' unit sz' True"
    using parseLoop_Continue [OF assms(2)] by simp
  from m v mul s' sz' fl other loop
  have general: "\<exists>m0 m1 m2 v mul.
           sizeRE (TrimSpace s) = Some (m0, m1, m2)
           \<and> ParseFloat m1 = Some v
           \<and> unit (ToLower m2) = Some mul
           \<and> s' = drop (length m0) (TrimSpace s)
           \<and> sz' = wrap64 (sz + floatToInt (fmul v mul))
           \<and> (fitsInt (fmul v mul) \<longrightarrow>
                0 \<le> valueOf (fmul v mul) \<and> valueOf (fmul v mul) < 2 ^ 63
                \<and> floatToInt (fmul v mul) = \<lfloor>valueOf (fmul v mul)\<rfloor>)
           \<and> (\<forall>sz0. parseTerm s unit sz0 = Continue s' (wrap64 (sz0 + floatToInt (fmul v mul))))
           \<and> (\<forall>ok. parseLoop s unit sz ok = parseLoop s' unit sz' True)"
    by blast
  have examples: "parse ''1.7M0.3K'' units2 = (1782886, None)
         \<and> parse ''1.7M'' units2 = (1782579, None)
         \<and> parse ''0.3K'' units2 = (307, None)
         \<and> parse ''0.25p'' units2 = (281474976710656, None)
         \<and> 281474976710656 * 4 = pi_i
         \<and> parse ''1.9k'' units2 = (1945, None)
         \<and> parse ''0.7k'' units2 = (716, None)
         \<and> parse ''0.7k0.7k'' units2 = (1432, None)"
    by code_simp
  from general examples show ?thesis by (rule conjI)
qed

theorem parse_rounds_each_term_witness:
  "parseTerm ''0.7k0.7k'' units2 0 = Continue ''0.7k'' 716
   \<and> sizeRE (TrimSpace ''0.7k0.7k'') = Some (''0.7k'', ''0.7'', ''k'')
   \<and> ParseFloat ''0.7'' = Some (Finite 6305039478318694 (- 53))
   \<and> units2 (ToLower ''k'') = Some (Finite 1024 0)
   \<and> fmul (Finite 6305039478318694 (- 53)) (Finite 1024 0) = Finite 6305039478318694 (- 43)
   \<and> fitsInt (Finite 6305039478318694 (- 43))
   \<and> floatToInt (Finite 6305039478318694 (- 43)) = 716
   \<and> \<lfloor>valueOf (Finite 6305039478318694 (- 43))\<rfloor> = 716
   \<and> parseLoop ''0.7k0.7k'' units2 0 False = parseLoop ''0.7k'' units2 716 True
   \<and> parse ''0.7k0.7k'' units2 = (1432, None)"
proof -
  have t: "parseTerm ''0.7k0.7k'' units2 0 = Continue ''0.7k'' 716" by code_simp
  have a: "sizeRE (TrimSpace ''0.7k0.7k'') = Some (''0.7k'', ''0.7'', ''k'')" by code_simp
  have b: "ParseFloat ''0.7'' = Some (Finite 6305039478318694 (- 53))" by code_simp
  have c: "units2 (ToLower ''k'') = Some (Finite 1024 0)" by code_simp
  have d: "fmul (Finite 6305039478318694 (- 53)) (Finite 1024 0)
           = Finite 6305039478318694 (- 43)" by code_simp
  have e: "fitsInt (Finite 6305039478318694 (- 43))" by code_simp
  have g: "floatToInt (Finite 6305039478318694 (- 43)) = 716" by code_simp
  have h: "parse ''0.7k0.7k'' units2 = (1432, None)" by code_simp
  from parse_rounds_each_term [of units2 "''0.7k0.7k''" 0 "''0.7k''" 716] t
  obtain m0 m1 m2 v mul where
    "sizeRE (TrimSpace ''0.7k0.7k'') = Some (m0, m1, m2)"
    "ParseFloat m1 = Some v" "units2 (ToLower m2) = Some mul"
    and fl: "fitsInt (fmul v mul) \<longrightarrow> floatToInt (fmul v mul) = \<lfloor>valueOf (fmul v mul)\<rfloor>"
    and loop: "\<forall>ok. parseLoop ''0.7k0.7k'' units2 0 ok = parseLoop ''0.7k'' units2 716 True"
    by blast
  with a b c have "v = Finite 6305039478318694 (- 53)" "mul = Finite 1024 0" by auto
  with fl d e g have "\<lfloor>valueOf (Finite 6305039478318694 (- 43))\<rfloor> = 716" by simp
  with t a b c d e g h loop show ?thesis by simp
qed

text \<open>
  Claim C5 (rejected inputs): in both bases each of the ten listed inputs makes
  \<^verbatim>\<open>parse\<close> return an error, and \<^verbatim>\<open>Set\<close> returns that error, whatever the cell holds.
\<close>

theorem parse_rejection_set:
  "map (\<lambda>s. parse s units2)
     ['''', ''  '', ''k'', ''.1'', ''1.'', ''2.1'', ''17kk'', ''-16.3mbb'', ''1b2kqq'', ''6.7q'']
   = [(0, Some (InvalidSize '''')), (0, Some (InvalidSize '''')),
      (0, Some (InvalidSize ''k'')), (0, Some (InvalidSize ''.1'')),
      (0, Some (InvalidSize ''1.'')), (0, Some (InvalidSize ''2.1'')),
      (0, Some (InvalidSize ''k'')), (0, Some (InvalidSize ''-16.3mbb'')),
      (0, Some (InvalidUnit ''b'')), (0, Some (InvalidSize ''6.7q''))]
   \<and> map (\<lambda>s. parse s units10)
     ['''', ''  '', ''k'', ''.1'', ''1.'', ''2.1'', ''17kk'', ''-16.3mbb'', ''1b2kqq'', ''6.7q'']
   = [(0, Some (InvalidSize '''')), (0, Some (InvalidSize '''')),
      (0, Some (InvalidSize ''k'')), (0, Some (InvalidSize ''.1'')),
      (0, Some (InvalidSize ''1.'')), (0, Some (InvalidSize ''2.1'')),
      (0, Some (InvalidSize ''k'')), (0, Some (InvalidSize ''-16.3mbb'')),
      (0, Some (InvalidUnit ''b'')), (0, Some (InvalidSize ''6.7q''))]
   \<and> map (\<lambda>s. Set2 s v)
     ['''', ''  '', ''k'', ''.1'', ''1.'', ''2.1'', ''17kk'', ''-16.3mbb'', ''1b2kqq'', ''6.7q'']
   = [(v, Some (InvalidSize '''')), (v, Some (InvalidSize '''')),
      (v, Some (InvalidSize ''k'')), (v, Some (InvalidSize ''.1'')),
      (v, Some (InvalidSize ''1.'')), (v, Some (InvalidSize ''2.1'')),
      (v, Some (InvalidSize ''k'')), (v, Some (InvalidSize ''-16.3mbb'')),
      (v, Some (InvalidUnit ''b'')), (v, Some (InvalidSize ''6.7q''))]
   \<and> map (\<lambda>s. Set10 s v)
     ['''', ''  '', ''k'', ''.1'', ''1.'', ''2.1'', ''17kk'', ''-16.3mbb'', ''1b2kqq'', ''6.7q'']
   = [(v, Some (InvalidSize '''')), (v, Some (InvalidSize '''')),
      (v, Some (InvalidSize ''k'')), (v, Some (InvalidSize ''.1'')),
      (v, Some (InvalidSize ''1.'')), (v, Some (InvalidSize ''2.1'')),
      (v, Some (InvalidSize ''k'')), (v, Some (InvalidSize ''-16.3mbb'')),
      (v, Some (InvalidUnit ''b'')), (v, Some (InvalidSize ''6.7q''))]"
  by code_simp

text \<open>
  Claim C6 (carry combination), as stated: the binary quantity \<open>1 * P + 1024 * T\<close> is
  rendered as the one term \<open>1025T\<close>. That quantity is \<open>2 ^ 51\<close>, two whole P, and the code
  renders it as \<open>2P\<close>.
\<close>

theorem unparse_P_plus_1024T:
  "pi_i + 1024 * ti = 2 * pi_i
   \<and> unparse (1 * pi_i + 1024 * ti) 1024 mult2 = Some ''2P''
   \<and> unparse (1 * pi_i + 1024 * ti) 1024 mult2 \<noteq> Some ''1025T''"
  by code_simp

text \<open>
  Claim C6, amended: the binary quantity \<open>1 * P + 1 * T\<close> is rendered as the one term
  \<open>1025T\<close>, not as two terms.
\<close>

theorem unparse_carry_combination:
  "unparseTerms (1 * pi_i + 1 * ti) 1024 mult2 = Some [\<lparr>term_n = 1025, term_u = ''T''\<rparr>]
   \<and> unparse (1 * pi_i + 1 * ti) 1024 mult2 = Some ''1025T''"
  by code_simp

text \<open>
  Claim C7 (the base matters): the text \<open>2.3K\<close> gives 2300 in the decimal base and 2355
  in the binary base.
\<close>

theorem parse_cross_base:
  "parse ''2.3K'' units10 = (2300, None) \<and> parse ''2.3K'' units2 = (2355, None)"
  by code_simp

text \<open>
  Claim C8 (Set): for every cell and every input, \<^verbatim>\<open>Set\<close> either succeeds and stores
  the quantity that \<^verbatim>\<open>parse\<close> returns, or returns the error of \<^verbatim>\<open>parse\<close> and leaves
  the cell as it was.
\<close>

theorem Set_stores_or_keeps:
  "((\<exists>z. parse s units2 = (z, None) \<and> Set2 s v = (z, None))
    \<or> (\<exists>z err. parse s units2 = (z, Some err) \<and> Set2 s v = (v, Some err)))
   \<and> ((\<exists>z. parse s units10 = (z, None) \<and> Set10 s v = (z, None))
    \<or> (\<exists>z err. parse s units10 = (z, Some err) \<and> Set10 s v = (v, Some err)))"
proof -
  obtain z2 r2 where p2: "parse s units2 = (z2, r2)" by (cases "parse s units2")
  obtain z10 r10 where p10: "parse s units10 = (z10, r10)" by (cases "parse s units10")
  from p2 have "(\<exists>z. parse s units2 = (z, None) \<and> Set2 s v = (z, None))
    \<or> (\<exists>z err. parse s units2 = (z, Some err) \<and> Set2 s v = (v, Some err))"
    by (cases r2) (simp_all add: Set2_def)
  moreover from p10 have "(\<exists>z. parse s units10 = (z, None) \<and> Set10 s v = (z, None))
    \<or> (\<exists>z err. parse s units10 = (z, Some err) \<and> Set10 s v = (v, Some err))"
    by (cases r10) (simp_all add: Set10_def)
  ultimately show ?thesis by blast
qed



lemma matchUnit_cases:
  assumes "matchUnit s = Some m2"
  shows "m2 = kelvin \<or> (\<exists>c \<in> set ''bkmgtpBKMGTP''. m2 = [c])"
  using assms by (cases s) (auto simp: matchUnit_def split: if_splits)

lemma sizeRE_unit_cases:
  assumes "sizeRE s = Some (m0, m1, m2)"
  shows "m2 = kelvin \<or> (\<exists>c \<in> set ''bkmgtpBKMGTP''. m2 = [c])"
proof -
  from assms obtain r where "matchUnit r = Some m2"
    by (auto simp: sizeRE_def matchFraction_def Let_def
        split: if_splits option.splits list.splits)
  then show ?thesis by (rule matchUnit_cases)
qed

lemma known_units:
  "list_all (\<lambda>c. units2 (ToLower [c]) \<noteq> None \<and> units10 (ToLower [c]) \<noteq> None) ''kmgtpKMGTP''
   \<and> units2 (ToLower kelvin) \<noteq> None \<and> units10 (ToLower kelvin) \<noteq> None"
  by code_simp

lemma unknown_unit_is_b:
  assumes "sizeRE s = Some (m0, m1, m2)"
    and "unit = units2 \<or> unit = units10"
    and "unit (ToLower m2) = None"
  shows "m2 = ''b'' \<or> m2 = ''B''"
proof -
  from known_units have k: "\<And>c. c \<in> set ''kmgtpKMGTP'' \<Longrightarrow>
      units2 (ToLower [c]) \<noteq> None \<and> units10 (ToLower [c]) \<noteq> None"
    and kk: "units2 (ToLower kelvin) \<noteq> None" "units10 (ToLower kelvin) \<noteq> None"
    unfolding list_all_iff by blast+
  from sizeRE_unit_cases [OF assms(1)] show ?thesis
  proof
    assume "m2 = kelvin"
    with kk assms(2,3) show ?thesis by auto
  next
    assume "\<exists>c \<in> set ''bkmgtpBKMGTP''. m2 = [c]"
    then obtain c where c: "c \<in> set ''bkmgtpBKMGTP''" and m2: "m2 = [c]" by blast
    show ?thesis
    proof (cases "c \<in> set ''kmgtpKMGTP''")
      case True
      from k [OF True] m2 assms(2,3) show ?thesis by auto
    next
      case False
      with c have "c = CHR ''b'' \<or> c = CHR ''B''" by auto
      with m2 show ?thesis by auto
    qed
  qed
qed




lemma wrap64_id: "- (2 ^ 63) \<le> x \<Longrightarrow> x < 2 ^ 63 \<Longrightarrow> wrap64 x = x"
  by (simp add: wrap64_def)

lemma sdiv_nonneg: "0 \<le> a \<Longrightarrow> 0 < b \<Longrightarrow> a sdiv b = a div (b::int)"
  by (simp add: signed_divide_int_def sgn_if)

lemma smod_nonneg: "0 \<le> a \<Longrightarrow> 0 < b \<Longrightarrow> a smod b = a mod (b::int)"
  by (simp add: signed_modulo_int_def sgn_if)

lemma termsVal_append: "termsVal pow (xs @ ys) = termsVal pow xs + termsVal pow ys"
  by (simp add: termsVal_def)

lemma termsVal_single: "termsVal pow [t] = term_n t * pow ^ unitRank (term_u t)"
  by (simp add: termsVal_def)

lemma termsVal_nonneg:
  assumes "0 < pow" "list_all (\<lambda>t. 0 < term_n t) ts"
  shows "0 \<le> termsVal pow ts"
  using assms by (induction ts) (auto simp: termsVal_def)

lemma termsVal_pos:
  assumes "0 < pow" "list_all (\<lambda>t. 0 < term_n t) ts" "ts \<noteq> []"
  shows "0 < termsVal pow ts"
proof -
  from assms(3) obtain t ts' where ts: "ts = t # ts'" by (cases ts) auto
  with assms have "0 < term_n t * pow ^ unitRank (term_u t)" by simp
  moreover from assms ts have "0 \<le> termsVal pow ts'" using termsVal_nonneg by simp
  ultimately show ?thesis using ts by (simp add: termsVal_def)
qed

lemma label_facts:
  assumes "0 < k" "k \<le> 6"
  shows "unitRank (labels ! (7 - k)) = k"
    and "labels ! (7 - k) \<in> set (tl labels)"
    and "7 - k < length labels"
    and "k < 6 \<Longrightarrow> unitRank (labels ! (6 - k)) = Suc k"
    and "k = 6 \<Longrightarrow> labels ! (6 - k) = ''''"
proof -
  from assms have "k = 1 \<or> k = 2 \<or> k = 3 \<or> k = 4 \<or> k = 5 \<or> k = 6" by auto
  then show "unitRank (labels ! (7 - k)) = k"
    and "labels ! (7 - k) \<in> set (tl labels)"
    and "7 - k < length labels"
    and "k < 6 \<Longrightarrow> unitRank (labels ! (6 - k)) = Suc k"
    and "k = 6 \<Longrightarrow> labels ! (6 - k) = ''''"
    by (auto simp: labels_def unitRank_def)
qed

lemma descending_snoc:
  "descending (ts @ [t]) \<longleftrightarrow>
     descending ts \<and> list_all (\<lambda>a. unitRank (term_u t) < unitRank (term_u a)) ts"
  by (auto simp: descending_def sorted_wrt_append list_all_iff)

lemma descending_butlast: "descending ts \<Longrightarrow> descending (butlast ts)"
  by (cases ts rule: rev_cases) (auto simp: descending_snoc)

lemma list_all_butlast: "list_all P ts \<Longrightarrow> list_all P (butlast ts)"
  by (auto simp: list_all_iff dest: in_set_butlastD)

lemma unparseLoop_step:
  assumes inv: "loopInv pow v k ts z" and k: "0 < k" "k \<le> 6"
    and pow: "1 < pow" and v: "v < 2 ^ 63"
  shows "\<exists>ts' z'. unparseLoop pow (6 - k) (pow ^ k # ds) ts z = unparseLoop pow (7 - k) ds ts' z'
           \<and> loopInv pow v (k - 1) ts' z'"
proof -
  let ?d = "pow ^ k"
  let ?u = "labels ! (7 - k)"
  let ?prev = "labels ! (6 - k)"
  have d: "0 < ?d" using pow by simp
  have i1: "6 - k + 1 = 7 - k" using k by simp
  from inv have z: "0 \<le> z" and val: "termsVal pow ts + z = v" and desc: "descending ts"
    and all: "list_all (\<lambda>t. 0 < term_n t \<and> k < unitRank (term_u t) \<and> term_u t \<in> set (tl labels)) ts"
    by (auto simp: loopInv_def)
  from all have allpos: "list_all (\<lambda>t. 0 < term_n t) ts" by (auto simp: list_all_iff)
  have tv: "0 \<le> termsVal pow ts" using termsVal_nonneg [OF _ allpos] pow by simp
  with val have zv: "z \<le> v" by simp
  have "z div ?d \<le> z" using zdiv_mono2 [of z 1 ?d] z d by simp
  moreover have "0 \<le> z div ?d" using z d by (simp add: pos_imp_zdiv_nonneg_iff)
  ultimately have n: "wrap64 (z sdiv ?d) = z div ?d"
    using sdiv_nonneg [OF z d] wrap64_id [of "z div ?d"] zv v by simp
  have m: "z smod ?d = z mod ?d" using smod_nonneg [OF z d] .
  have weak: "list_all (\<lambda>t. 0 < term_n t \<and> k - 1 < unitRank (term_u t) \<and> term_u t \<in> set (tl labels)) ts"
    using all by (auto simp: list_all_iff)
  show ?thesis
  proof (cases "0 < z div ?d")
    case False
    then have "unparseLoop pow (6 - k) (?d # ds) ts z = unparseLoop pow (7 - k) ds ts z"
      using d n i1 pow by simp
    moreover have "loopInv pow v (k - 1) ts z"
      using z val desc weak by (simp add: loopInv_def)
    ultimately show ?thesis by blast
  next
    case True
    have zsplit: "z div ?d * ?d + z mod ?d = z" by (rule div_mult_mod_eq)
    have rk: "unitRank ?u = k" and um: "?u \<in> set (tl labels)" and len: "7 - k < length labels"
      using label_facts [OF k] by auto
    show ?thesis
    proof (cases "ts \<noteq> [] \<and> z mod ?d = 0 \<and> term_u (last ts) = ?prev")
      case merge: True
      then obtain ts0 t where ts: "ts = ts0 @ [t]" by (cases ts rule: rev_cases) auto
      with merge have tu: "term_u t = ?prev" and z0: "z mod ?d = 0" by auto
      from all ts have "term_u t \<in> set (tl labels)" by simp
      with tu label_facts(5) [OF k] have "k \<noteq> 6" by (auto simp: labels_def)
      with k have "k < 6" by simp
      with label_facts(4) [OF k] tu have rt: "unitRank (term_u t) = Suc k" by simp
      let ?c = "term_n t * pow + z div ?d"
      let ?t' = "\<lparr>term_n = ?c, term_u = ?u\<rparr>"
      from all ts have tpos: "0 < term_n t" by simp
      have cpos: "0 < ?c" using tpos pow True by (simp add: add_pos_pos)
      from all ts have all0: "list_all (\<lambda>t. 0 < term_n t) ts0" by (auto simp: list_all_iff)
      have tv0: "0 \<le> termsVal pow ts0" using termsVal_nonneg [OF _ all0] pow by simp
      have cv: "?c * ?d = term_n t * pow ^ Suc k + z"
        using zsplit z0 by (simp add: algebra_simps)
      have "termsVal pow ts = termsVal pow ts0 + term_n t * pow ^ Suc k"
        using ts rt by (simp add: termsVal_append termsVal_single)
      with val cv have val': "termsVal pow ts0 + ?c * ?d = v" by simp
      with tv0 have "?c * ?d \<le> v" by simp
      moreover have "?c \<le> ?c * ?d" using cpos d by (simp add: mult_le_cancel_left1)
      ultimately have "?c < 2 ^ 63" using v by simp
      with cpos have w: "wrap64 ?c = ?c" using wrap64_id [of ?c] by simp
      have addeq: "add pow ts (z div ?d) ?u ?prev (z mod ?d) = (ts0 @ [?t'], 0)"
        using merge ts w z0 by (simp add: add_def)
      have "unparseLoop pow (6 - k) (?d # ds) ts z = unparseLoop pow (7 - k) ds (ts0 @ [?t']) 0"
        using d n m True i1 len addeq pow by simp
      moreover have "loopInv pow v (k - 1) (ts0 @ [?t']) 0"
      proof -
        have "termsVal pow (ts0 @ [?t']) + 0 = v"
          using val' rk by (simp add: termsVal_append termsVal_single)
        moreover have "descending (ts0 @ [?t'])"
          using desc ts all rk by (auto simp: descending_snoc list_all_iff)
        moreover have "list_all (\<lambda>t. 0 < term_n t \<and> k - 1 < unitRank (term_u t)
            \<and> term_u t \<in> set (tl labels)) (ts0 @ [?t'])"
          using weak ts cpos rk um k by simp
        ultimately show ?thesis by (simp add: loopInv_def)
      qed
      ultimately show ?thesis by blast
    next
      case False
      let ?t' = "\<lparr>term_n = z div ?d, term_u = ?u\<rparr>"
      have addeq: "add pow ts (z div ?d) ?u ?prev (z mod ?d) = (ts @ [?t'], z mod ?d)"
        using False by (auto simp: add_def)
      have "unparseLoop pow (6 - k) (?d # ds) ts z = unparseLoop pow (7 - k) ds (ts @ [?t']) (z mod ?d)"
        using d n m True i1 len addeq pow by simp
      moreover have "loopInv pow v (k - 1) (ts @ [?t']) (z mod ?d)"
      proof -
        have "0 \<le> z mod ?d" using d by simp
        moreover have "termsVal pow (ts @ [?t']) + z mod ?d = v"
          using val rk zsplit by (simp add: termsVal_append termsVal_single)
        moreover have "descending (ts @ [?t'])"
          using desc all rk by (auto simp: descending_snoc list_all_iff)
        moreover have "list_all (\<lambda>t. 0 < term_n t \<and> k - 1 < unitRank (term_u t)
            \<and> term_u t \<in> set (tl labels)) (ts @ [?t'])"
          using weak True rk um k by simp
        ultimately show ?thesis by (simp add: loopInv_def)
      qed
      ultimately show ?thesis by blast
    qed
  qed
qed


lemma unparseLoop_tables:
  assumes v0: "0 \<le> v" and v: "v < 2 ^ 63" and pow: "1 < pow"
  shows "\<exists>ts z. unparseLoop pow 0 [pow ^ 6, pow ^ 5, pow ^ 4, pow ^ 3, pow ^ 2, pow ^ 1] [] v
            = Some (ts, z) \<and> loopInv pow v 0 ts z"
proof -
  have i6: "loopInv pow v 6 [] v"
    using v0 by (simp add: loopInv_def termsVal_def descending_def)
  from unparseLoop_step [OF i6 _ _ pow v, of "[pow ^ 5, pow ^ 4, pow ^ 3, pow ^ 2, pow ^ 1]"]
  obtain ts5 z5 where
    e5: "unparseLoop pow 0 [pow ^ 6, pow ^ 5, pow ^ 4, pow ^ 3, pow ^ 2, pow ^ 1] [] v
         = unparseLoop pow 1 [pow ^ 5, pow ^ 4, pow ^ 3, pow ^ 2, pow ^ 1] ts5 z5"
    and i5: "loopInv pow v 5 ts5 z5" by auto
  from unparseLoop_step [OF i5 _ _ pow v, of "[pow ^ 4, pow ^ 3, pow ^ 2, pow ^ 1]"]
  obtain ts4 z4 where
    e4: "unparseLoop pow 1 [pow ^ 5, pow ^ 4, pow ^ 3, pow ^ 2, pow ^ 1] ts5 z5
         = unparseLoop pow 2 [pow ^ 4, pow ^ 3, pow ^ 2, pow ^ 1] ts4 z4"
    and i4: "loopInv pow v 4 ts4 z4" by auto
  from unparseLoop_step [OF i4 _ _ pow v, of "[pow ^ 3, pow ^ 2, pow ^ 1]"]
  obtain ts3 z3 where
    e3: "unparseLoop pow 2 [pow ^ 4, pow ^ 3, pow ^ 2, pow ^ 1] ts4 z4
         = unparseLoop pow 3 [pow ^ 3, pow ^ 2, pow ^ 1] ts3 z3"
    and i3: "loopInv pow v 3 ts3 z3" by auto
  from unparseLoop_step [OF i3 _ _ pow v, of "[pow ^ 2, pow ^ 1]"]
  obtain ts2 z2 where
    e2: "unparseLoop pow 3 [pow ^ 3, pow ^ 2, pow ^ 1] ts3 z3
         = unparseLoop pow 4 [pow ^ 2, pow ^ 1] ts2 z2"
    and i2: "loopInv pow v 2 ts2 z2" by auto
  from unparseLoop_step [OF i2 _ _ pow v, of "[pow ^ 1]"]
  obtain ts1 z1 where
    e1: "unparseLoop pow 4 [pow ^ 2, pow ^ 1] ts2 z2 = unparseLoop pow 5 [pow ^ 1] ts1 z1"
    and i1: "loopInv pow v 1 ts1 z1" by auto
  from unparseLoop_step [OF i1 _ _ pow v, of "[]"]
  obtain ts0 z0 where
    e0: "unparseLoop pow 5 [pow ^ 1] ts1 z1 = unparseLoop pow 6 [] ts0 z0"
    and i0: "loopInv pow v 0 ts0 z0" by auto
  from e5 e4 e3 e2 e1 e0
  have "unparseLoop pow 0 [pow ^ 6, pow ^ 5, pow ^ 4, pow ^ 3, pow ^ 2, pow ^ 1] [] v
        = Some (ts0, z0)" by simp
  with i0 show ?thesis by blast
qed

lemma unparse_last_add:
  assumes inv: "loopInv pow v 0 ts z" and pow: "1 < pow" and v: "v < 2 ^ 63"
    and ts': "ts' = (if ts = [] \<or> 0 < z then fst (add pow ts z '''' ''K'' 0) else ts)"
  shows "descending ts' \<and> list_all (\<lambda>t. term_u t \<in> set labels) ts' \<and> termsVal pow ts' = v
         \<and> (if v = 0 then ts' = [\<lparr>term_n = 0, term_u = ''''\<rparr>]
             else list_all (\<lambda>t. 0 < term_n t) ts')"
proof -
  from inv have z: "0 \<le> z" and val: "termsVal pow ts + z = v" and desc: "descending ts"
    and all: "list_all (\<lambda>t. 0 < term_n t \<and> 0 < unitRank (term_u t) \<and> term_u t \<in> set (tl labels)) ts"
    by (auto simp: loopInv_def)
  from all have allpos: "list_all (\<lambda>t. 0 < term_n t) ts"
    and alllab: "list_all (\<lambda>t. term_u t \<in> set labels) ts"
    by (auto simp: list_all_iff labels_def)
  have r0: "unitRank '''' = 0" by (simp add: unitRank_def)
  have l0: "'''' \<in> set labels" by (simp add: labels_def)
  show ?thesis
  proof (cases "ts = []")
    case True
    with ts' have "ts' = [\<lparr>term_n = z, term_u = ''''\<rparr>]" by (simp add: add_def)
    moreover from True val have "z = v" by (simp add: termsVal_def)
    ultimately show ?thesis
      using z r0 l0 by (auto simp: descending_def termsVal_def)
  next
    case nonempty: False
    have tvpos: "0 < termsVal pow ts" using termsVal_pos [OF _ allpos nonempty] pow by simp
    with val z have vpos: "0 < v" by simp
    show ?thesis
    proof (cases "0 < z")
      case False
      with z have "z = 0" by simp
      with ts' nonempty val have "ts' = ts" "termsVal pow ts = v" by auto
      then show ?thesis using desc alllab allpos vpos by simp
    next
      case zpos: True
      show ?thesis
      proof (cases "term_u (last ts) = ''K''")
        case False
        with ts' zpos nonempty have "ts' = ts @ [\<lparr>term_n = z, term_u = ''''\<rparr>]"
          by (simp add: add_def)
        then show ?thesis
          using desc alllab allpos vpos zpos val all r0 l0
          by (auto simp: descending_snoc termsVal_append termsVal_single list_all_iff)
      next
        case True
        from nonempty obtain ts0 t where ts: "ts = ts0 @ [t]" by (cases ts rule: rev_cases) auto
        with True have tu: "term_u t = ''K''" by simp
        then have rt: "unitRank (term_u t) = 1" by (simp add: unitRank_def)
        let ?c = "term_n t * pow + z"
        from all ts have tpos: "0 < term_n t" by simp
        have cpos: "0 < ?c" using tpos pow zpos by (simp add: add_pos_pos)
        from allpos ts have all0: "list_all (\<lambda>t. 0 < term_n t) ts0" by simp
        have tv0: "0 \<le> termsVal pow ts0" using termsVal_nonneg [OF _ all0] pow by simp
        have "termsVal pow ts = termsVal pow ts0 + term_n t * pow"
          using ts rt by (simp add: termsVal_append termsVal_single)
        with val have val': "termsVal pow ts0 + ?c = v" by simp
        with tv0 v have "?c < 2 ^ 63" by simp
        with cpos have w: "wrap64 ?c = ?c" using wrap64_id [of ?c] by simp
        from ts' zpos ts tu w have "ts' = ts0 @ [\<lparr>term_n = ?c, term_u = ''''\<rparr>]"
          by (simp add: add_def)
        moreover have "descending (ts0 @ [\<lparr>term_n = ?c, term_u = ''''\<rparr>])"
          using desc ts all r0 by (auto simp: descending_snoc list_all_iff)
        moreover have "termsVal pow (ts0 @ [\<lparr>term_n = ?c, term_u = ''''\<rparr>]) = v"
          using val' r0 by (simp add: termsVal_append termsVal_single)
        ultimately show ?thesis
          using alllab allpos ts cpos vpos l0 by simp
      qed
    qed
  qed
qed

lemma mult_tables:
  "mult2 = [1024 ^ 6, 1024 ^ 5, 1024 ^ 4, 1024 ^ 3, 1024 ^ 2, 1024 ^ 1]"
  "mult10 = [1000 ^ 6, 1000 ^ 5, 1000 ^ 4, 1000 ^ 3, 1000 ^ 2, 1000 ^ 1]"
  by (simp_all add: mult2_def mult10_def ki_def mi_def gi_def ti_def pi_i_def ei_def
      kd_def md_def gd_def td_def pd_def ed_def)

lemma digit_char_no_space:
  assumes "0 \<le> d" "d < 10"
  shows "char_of (48 + d :: int) \<noteq> CHR '' ''"
proof
  assume "char_of (48 + d) = CHR '' ''"
  then have "(of_char (char_of (48 + d) :: char) :: int) = of_char (CHR '' '')" by simp
  then have "(48 + d) mod 256 = 32" by simp
  with assms show False by simp
qed

lemma digitsOf_no_space: "0 \<le> n \<Longrightarrow> CHR '' '' \<notin> set (digitsOf n)"
proof (induction n rule: digitsOf.induct)
  case (1 n)
  show ?case
  proof (cases "n < 10")
    case True
    with 1(2) digit_char_no_space [of n] show ?thesis
      by (subst digitsOf.simps) simp
  next
    case False
    with 1 have "CHR '' '' \<notin> set (digitsOf (n div 10))" by simp
    moreover have "char_of (48 + n mod 10) \<noteq> CHR '' ''"
      using digit_char_no_space [of "n mod 10"] by simp
    ultimately show ?thesis using False by (subst digitsOf.simps) auto
  qed
qed

lemma fmtTerm_no_space:
  assumes "0 \<le> term_n t" "term_u t \<in> set labels"
  shows "CHR '' '' \<notin> set (fmtTerm t)"
  using assms digitsOf_no_space [of "term_n t"]
  by (auto simp: fmtTerm_def fmtInt_def labels_def)

text \<open>
  Claim C10 (canonical rendering): for every non-negative quantity of the 64-bit range
  and either unit base, the formatter does not panic and renders a sequence of terms
  joined by single spaces (no term holds a space). The unit labels are labels of the
  table, each at most once, in strictly descending rank; every coefficient is positive,
  except that the quantity zero is the one term \<open>0\<close> with the empty label.
\<close>

theorem unparse_canonical:
  assumes "0 \<le> v" and "v < 2 ^ 63"
    and "pow = 1024 \<and> mult = mult2 \<or> pow = 1000 \<and> mult = mult10"
  shows "\<exists>ts. unparseTerms v pow mult = Some ts
           \<and> unparse v pow mult = Some (Join (map fmtTerm ts) '' '')
           \<and> sorted_wrt (\<lambda>a b. unitRank (term_u b) < unitRank (term_u a)) ts
           \<and> distinct (map term_u ts)
           \<and> list_all (\<lambda>t. term_u t \<in> set labels \<and> CHR '' '' \<notin> set (fmtTerm t)) ts
           \<and> (if v = 0 then ts = [\<lparr>term_n = 0, term_u = ''''\<rparr>]
               else list_all (\<lambda>t. 0 < term_n t) ts)"
proof -
  from assms(3) have pow: "1 < pow"
    and mult: "mult = [pow ^ 6, pow ^ 5, pow ^ 4, pow ^ 3, pow ^ 2, pow ^ 1]"
    using mult_tables by auto
  from unparseLoop_tables [OF assms(1,2) pow] mult obtain ts0 z
    where loop: "unparseLoop pow 0 mult [] v = Some (ts0, z)" and inv: "loopInv pow v 0 ts0 z"
    by auto
  define ts where "ts = (if ts0 = [] \<or> 0 < z then fst (add pow ts0 z '''' ''K'' 0) else ts0)"
  from loop have ut: "unparseTerms v pow mult = Some ts"
    by (simp add: unparseTerms_def ts_def)
  then have up: "unparse v pow mult = Some (Join (map fmtTerm ts) '' '')"
    by (simp add: unparse_def)
  from unparse_last_add [OF inv pow assms(2) ts_def]
  have desc: "descending ts" and lab: "list_all (\<lambda>t. term_u t \<in> set labels) ts"
    and coef: "if v = 0 then ts = [\<lparr>term_n = 0, term_u = ''''\<rparr>]
               else list_all (\<lambda>t. 0 < term_n t) ts"
    by auto
  from coef have nonneg: "list_all (\<lambda>t. 0 \<le> term_n t) ts"
    by (auto simp: list_all_iff split: if_splits)
  from lab nonneg have nosp: "list_all (\<lambda>t. term_u t \<in> set labels \<and> CHR '' '' \<notin> set (fmtTerm t)) ts"
    using fmtTerm_no_space by (auto simp: list_all_iff)
  from desc have srt: "sorted_wrt (\<lambda>a b. unitRank (term_u b) < unitRank (term_u a)) ts"
    by (simp add: descending_def)
  have "distinct (map term_u ts)"
    using srt by (induction ts) auto
  with ut up srt nosp coef show ?thesis by blast
qed

theorem unparse_canonical_witness:
  "(0 :: int) \<le> 2 ^ 40 + 5 * 2 ^ 20 + 7
   \<and> (2 ^ 40 + 5 * 2 ^ 20 + 7 :: int) < 2 ^ 63
   \<and> unparse (2 ^ 40 + 5 * 2 ^ 20 + 7) 1024 mult2 = Some ''1T 5M 7''
   \<and> (\<exists>ts. unparseTerms (2 ^ 40 + 5 * 2 ^ 20 + 7) 1024 mult2 = Some ts
           \<and> unparse (2 ^ 40 + 5 * 2 ^ 20 + 7) 1024 mult2 = Some (Join (map fmtTerm ts) '' '')
           \<and> sorted_wrt (\<lambda>a b. unitRank (term_u b) < unitRank (term_u a)) ts
           \<and> distinct (map term_u ts)
           \<and> list_all (\<lambda>t. term_u t \<in> set labels \<and> CHR '' '' \<notin> set (fmtTerm t)) ts
           \<and> list_all (\<lambda>t. 0 < term_n t) ts)"
proof -
  have "unparse (2 ^ 40 + 5 * 2 ^ 20 + 7) 1024 mult2 = Some ''1T 5M 7''"
    by code_simp
  with unparse_canonical [of "2 ^ 40 + 5 * 2 ^ 20 + 7" 1024 mult2] show ?thesis
    by simp
qed

end
